theory Spec2Isabelle
  imports Main "HOL-Library.Multiset"
begin

section \<open>Text primitives of the routes\<close>

text \<open>
  Texts are modelled as \<^typ>\<open>string\<close>, one \<^typ>\<open>char\<close> per code unit of the
  source string (code units below 256). The whitespace class of the regular expression
  \<^verbatim>\<open>\s\<close> and of \<^verbatim>\<open>trim\<close> is, in that range, TAB, LF, VT, FF, CR, space
  and the no-break space.
\<close>

definition is_space :: "char \<Rightarrow> bool" where
  "is_space c = (let n = (of_char c :: nat) in (9 \<le> n \<and> n \<le> 13) \<or> n = 32 \<or> n = 160)"

text \<open>\<^verbatim>\<open>s.trim()\<close>.\<close>

definition trim :: "string \<Rightarrow> string" where
  "trim s = rev (dropWhile is_space (rev (dropWhile is_space s)))"

text \<open>\<^verbatim>\<open>xs.join(sep)\<close>.\<close>

fun join :: "string \<Rightarrow> string list \<Rightarrow> string" where
  "join sep [] = []"
| "join sep [x] = x"
| "join sep (x # y # ys) = x @ sep @ join sep (y # ys)"

text \<open>
  \<^verbatim>\<open>s.split(/[C]+/)\<close> for a character class \<open>C\<close>, given as a predicate: the text is
  cut at every maximal run of characters of the class. The empty text gives one empty
  piece; a run at the start or at the end gives an empty first or last piece.
\<close>

function split_re :: "(char \<Rightarrow> bool) \<Rightarrow> string \<Rightarrow> string list" where
  "split_re P [] = [[]]"
| "split_re P (c # cs) =
     (if P c then [] # split_re P (dropWhile P cs)
      else (case split_re P cs of w # ws \<Rightarrow> (c # w) # ws | [] \<Rightarrow> [[c]]))"
  by pat_completeness auto
termination
  by (relation "measure (\<lambda>(P, s). length s)") (auto simp: length_dropWhile_le less_Suc_eq_le)

text \<open>\<^verbatim>\<open>s.split(". ")\<close>: the text is cut at every occurrence of a full stop followed by
  a space, found from left to right.\<close>

fun split_dot_space :: "string \<Rightarrow> string list" where
  "split_dot_space [] = [[]]"
| "split_dot_space [c] = [[c]]"
| "split_dot_space (c # d # cs) =
     (if c = CHR ''.'' \<and> d = CHR '' '' then [] # split_dot_space cs
      else (case split_dot_space (d # cs) of w # ws \<Rightarrow> (c # w) # ws | [] \<Rightarrow> [[c]]))"

section \<open>The summarize route: cleanText, chunkText, summarizeChunks\<close>


text \<open>\<^verbatim>\<open>sentence.split(/\s+/).length\<close>.\<close>

definition sentenceLength :: "string \<Rightarrow> nat" where
  "sentenceLength sentence = length (split_re is_space sentence)"

text \<open>
  The loop of \<^verbatim>\<open>chunkText\<close> keeps \<^verbatim>\<open>chunks\<close>, \<^verbatim>\<open>currentChunk\<close> and
  \<^verbatim>\<open>currentLength\<close>; \<open>chunk_step\<close> is one iteration of its body.
\<close>

type_synonym chunk_state = "string list \<times> string list \<times> nat"

definition chunk_step :: "nat \<Rightarrow> chunk_state \<Rightarrow> string \<Rightarrow> chunk_state" where
  "chunk_step maxChunkLength st sentence =
     (case st of (chunks, currentChunk, currentLength) \<Rightarrow>
        (case (if currentLength + sentenceLength sentence > maxChunkLength
               then (chunks @ [join ''. '' currentChunk @ ''.''], [], 0)
               else (chunks, currentChunk, currentLength)) of
           (chunks', currentChunk', currentLength') \<Rightarrow>
             (chunks', currentChunk' @ [sentence], currentLength' + sentenceLength sentence)))"

definition chunkText :: "string \<Rightarrow> nat \<Rightarrow> string list" where
  "chunkText text maxChunkLength =
     (case foldl (chunk_step maxChunkLength) ([], [], 0) (split_dot_space text) of
        (chunks, currentChunk, currentLength) \<Rightarrow>
          (if length currentChunk > 0 then chunks @ [join ''. '' currentChunk @ ''.''] else chunks))"

text \<open>The extractive summary of one chunk, the body of the \<^verbatim>\<open>catch\<close> branch.\<close>

definition fallbackSummary :: "string \<Rightarrow> string" where
  "fallbackSummary chunk =
     (let sentences = split_dot_space chunk in
      if length sentences \<le> 2 then chunk
      else (sentences ! 0) @ ''. '' @ (sentences ! (length sentences div 2)) @ ''.'')"

text \<open>
  The summarization server is a parameter: \<open>remote chunk\<close> is \<open>Some summary\<close> when the
  request for that chunk returns a success status with a summary, and \<open>None\<close> when the
  request throws or the status is not a success. All requests run under one
  \<^verbatim>\<open>Promise.all\<close> inside one \<^verbatim>\<open>try\<close>: one failure rejects the whole and the
  \<^verbatim>\<open>catch\<close> branch maps the fallback over every chunk.
\<close>

definition summarizeChunks :: "(string \<Rightarrow> string option) \<Rightarrow> string list \<Rightarrow> string list" where
  "summarizeChunks remote chunks =
     (case those (map remote chunks) of
        Some summaries \<Rightarrow> summaries
      | None \<Rightarrow> map fallbackSummary chunks)"

text \<open>Whether a text contains the delimiter of \<open>split_dot_space\<close>.\<close>

fun has_dot_space :: "string \<Rightarrow> bool" where
  "has_dot_space (c # d # cs) = ((c = CHR ''.'' \<and> d = CHR '' '') \<or> has_dot_space (d # cs))"
| "has_dot_space _ = False"


text \<open>
  The chunker in the words of the specification: the sentences are packed in order into
  the current segment; a sentence that would take the word count of the segment over the
  limit closes the segment and opens the next one; the last segment is always emitted.
  A segment always holds a sentence, so a sentence longer than the limit is a segment of
  its own. A segment is written as the code writes it, its sentences joined on the
  delimiter and closed by a full stop.
\<close>

definition wordCount :: "string list \<Rightarrow> nat" where
  "wordCount segment = sum_list (map sentenceLength segment)"

fun pack :: "nat \<Rightarrow> string list \<Rightarrow> string list \<Rightarrow> string list list" where
  "pack N segment [] = [segment]"
| "pack N segment (s # rest) =
     (if wordCount segment + sentenceLength s > N then segment # pack N [s] rest
      else pack N (segment @ [s]) rest)"

definition chunk_spec :: "string \<Rightarrow> nat \<Rightarrow> string list" where
  "chunk_spec text N =
     (case split_dot_space text of
        [] \<Rightarrow> []
      | s # rest \<Rightarrow> map (\<lambda>segment. join ''. '' segment @ ''.'') (pack N [s] rest))"

section \<open>The question-answer route\<close>

subsection \<open>generateExtractiveAnswer\<close>

text \<open>\<^verbatim>\<open>s.toLowerCase()\<close> on code units below 256: the letters A to Z and the
  accented capitals from 192 to 222, the multiplication sign 215 apart.\<close>

definition to_lower_char :: "char \<Rightarrow> char" where
  "to_lower_char c =
     (let n = (of_char c :: nat) in
      if (65 \<le> n \<and> n \<le> 90) \<or> (192 \<le> n \<and> n \<le> 222 \<and> n \<noteq> 215)
      then char_of (n + 32) else c)"

definition toLowerCase :: "string \<Rightarrow> string" where
  "toLowerCase s = map to_lower_char s"

text \<open>\<^verbatim>\<open>s.includes(w)\<close>: \<open>w\<close> occurs in \<open>s\<close> as a contiguous piece.\<close>

fun includes_str :: "string \<Rightarrow> string \<Rightarrow> bool" where
  "includes_str [] w = (w = [])"
| "includes_str (c # cs) w = (take (length w) (c # cs) = w \<or> includes_str cs w)"

text \<open>The character class \<^verbatim>\<open>[.!?]\<close>.\<close>

definition is_sentence_end :: "char \<Rightarrow> bool" where
  "is_sentence_end c = (c = CHR ''.'' \<or> c = CHR ''!'' \<or> c = CHR ''?'')"

definition stopWords :: "string list" where
  "stopWords = [''what'', ''who'', ''when'', ''where'', ''why'', ''how'', ''the'', ''and'',
                ''this'', ''that'']"

definition docSentences :: "string \<Rightarrow> string list" where
  "docSentences documentContent =
     filter (\<lambda>s. length (trim s) > 0) (split_re is_sentence_end documentContent)"

definition questionWords :: "string \<Rightarrow> string list" where
  "questionWords question =
     filter (\<lambda>w. length w > 3 \<and> w \<notin> set stopWords) (split_re is_space (toLowerCase question))"

text \<open>The \<^verbatim>\<open>forEach\<close> that counts, for one sentence, the question words it includes.\<close>

definition sentenceScore :: "string list \<Rightarrow> string \<Rightarrow> nat" where
  "sentenceScore qwords sentence =
     foldl (\<lambda>score word. if includes_str (toLowerCase sentence) word then score + 1 else score)
       0 qwords"

definition scoredSentences :: "string \<Rightarrow> string \<Rightarrow> (string \<times> nat) list" where
  "scoredSentences documentContent question =
     map (\<lambda>sentence. (sentence, sentenceScore (questionWords question) sentence))
       (docSentences documentContent)"

text \<open>
  \<^verbatim>\<open>.sort((a, b) => b.score - a.score)\<close>: the sort of the language is stable, so it is
  the stable sort on the negated score.
\<close>

definition rankedSentences :: "string \<Rightarrow> string \<Rightarrow> (string \<times> nat) list" where
  "rankedSentences documentContent question =
     sort_key (\<lambda>item. - int (snd item)) (scoredSentences documentContent question)"

definition topSentences :: "string \<Rightarrow> string \<Rightarrow> string list" where
  "topSentences documentContent question =
     map (\<lambda>item. trim (fst item)) (take 3 (rankedSentences documentContent question))"

definition blank_line :: string where
  "blank_line = [CHR 0x0A, CHR 0x0A]"

definition no_answer_framing :: string where
  "no_answer_framing =
     ''I couldn't find a specific answer to this question in the document. '' @
     ''Here are some key excerpts that might be helpful:'' @ blank_line"

definition answer_framing :: string where
  "answer_framing =
     ''Based on the document, I found this information that answers your question:'' @
     blank_line"

text \<open>\<^verbatim>\<open>xs[i]\<close>, which is \<^verbatim>\<open>undefined\<close> out of range, and \<^verbatim>\<open>filter(Boolean)\<close>,
  which drops \<^verbatim>\<open>undefined\<close> and the empty string.\<close>

definition nth_opt :: "'a list \<Rightarrow> int \<Rightarrow> 'a option" where
  "nth_opt xs i = (if 0 \<le> i \<and> i < int (length xs) then Some (xs ! nat i) else None)"

fun filter_Boolean :: "string option list \<Rightarrow> string list" where
  "filter_Boolean [] = []"
| "filter_Boolean (None # xs) = filter_Boolean xs"
| "filter_Boolean (Some s # xs) = (if s = [] then filter_Boolean xs else s # filter_Boolean xs)"

definition keyExcerpts :: "string list \<Rightarrow> string list" where
  "keyExcerpts sentences =
     map trim (filter_Boolean
       [nth_opt sentences 0,
        nth_opt sentences (int (length sentences div 2)),
        nth_opt sentences (int (length sentences) - 1)])"

definition generateExtractiveAnswer :: "string \<Rightarrow> string \<Rightarrow> string" where
  "generateExtractiveAnswer documentContent question =
     (if length (topSentences documentContent question) = 0
      then no_answer_framing @ join blank_line (keyExcerpts (docSentences documentContent))
      else answer_framing @ join blank_line (topSentences documentContent question))"

subsection \<open>The POST handler\<close>

text \<open>
  The fields of the request body that the handler reads. A field absent from the JSON
  is \<open>None\<close>.
\<close>

record qa_request =
  question :: "string option"
  documentContent :: "string option"
  documentName :: "string option"
  fingerprint :: "string option"
  documentFingerprint :: "string option"

text \<open>\<^verbatim>\<open>!v\<close> for an optional string: absent or empty.\<close>

definition falsy :: "string option \<Rightarrow> bool" where
  "falsy v = (v = None \<or> v = Some [])"

text \<open>\<^verbatim>\<open>a || b\<close> on optional strings.\<close>

definition or_else :: "string option \<Rightarrow> string option \<Rightarrow> string option" where
  "or_else a b = (if falsy a then b else a)"

text \<open>
  The outcome of the \<^verbatim>\<open>findOne\<close> on the documents collection: the driver throws,
  no document has the fingerprint, or a document is found with its content (an empty
  content counts as missing in the handler).
\<close>

datatype db_lookup = Db_error | Db_missing | Db_document string

datatype role = User | Ai

type_synonym chat_message = "role \<times> string"

text \<open>
  What the handler calls and does not define. \<open>qaAnswer context question\<close> and
  \<open>qaBulk text\<close> are the two requests to the QA server, \<open>None\<close> when the request
  throws or the status is not a success. \<open>saveMessage\<close> of the chat history model
  is not part of these sources: it is given the stored messages and the role and content
  of the new one, and returns the messages after the save, or \<open>None\<close> when it throws.
  The user id, the document name and the fingerprint are handed through unchanged and
  are left out.
\<close>

record qa_env =
  findDocument :: "string \<Rightarrow> db_lookup"
  qaAnswer :: "string \<Rightarrow> string \<Rightarrow> string option"
  qaBulk :: "string option \<Rightarrow> (string \<times> string) list option"
  connectToDatabase :: bool
  saveMessage :: "chat_message list \<Rightarrow> chat_message \<Rightarrow> chat_message list option"

datatype qa_body =
    Error_body string
  | Answer_body string
  | Question_answer_body string string
  | Bulk_body "(string \<times> string) list"
  | Fallback_body string string

datatype response = Response (status: nat) (body: qa_body)

text \<open>
  \<^verbatim>\<open>saveQuestionAndAnswer\<close>: the question is saved first, then the answer, which on
  the fallback path gets a fixed prefix. Whatever throws is caught and logged, and the
  messages saved before it stay.
\<close>

definition saveQuestionAndAnswer ::
  "qa_env \<Rightarrow> chat_message list \<Rightarrow> string \<Rightarrow> string \<Rightarrow> bool \<Rightarrow> chat_message list" where
  "saveQuestionAndAnswer env history q answer isFallback =
     (if \<not> connectToDatabase env then history
      else (case saveMessage env history (User, q) of
              None \<Rightarrow> history
            | Some history1 \<Rightarrow>
                (let answerPrefix = (if isFallback then ''[Fallback Answer] '' else '''') in
                 case saveMessage env history1 (Ai, answerPrefix @ answer) of
                   None \<Rightarrow> history1
                 | Some history2 \<Rightarrow> history2)))"

text \<open>The loop over the bulk answers, each saved as one exchange.\<close>

fun saveBulk ::
  "qa_env \<Rightarrow> chat_message list \<Rightarrow> (string \<times> string) list \<Rightarrow> chat_message list" where
  "saveBulk env history [] = history"
| "saveBulk env history (qa # qas) =
     saveBulk env (saveQuestionAndAnswer env history (fst qa) (snd qa) False) qas"

text \<open>
  The inner \<^verbatim>\<open>try\<close> of the handler, entered once a content is there.
  \<open>actualDocumentContent\<close> is the content sent to the server for a single question;
  the bulk request and the \<^verbatim>\<open>catch\<close> branch read \<open>documentContent\<close> of the request
  instead. In the \<^verbatim>\<open>catch\<close> branch an absent \<open>documentContent\<close> makes
  \<^verbatim>\<open>documentContent.split\<close> throw, and the outer \<^verbatim>\<open>catch\<close> answers with status 500.
\<close>

definition answerQuestion ::
  "qa_env \<Rightarrow> chat_message list \<Rightarrow> qa_request \<Rightarrow> string \<Rightarrow> string
     \<Rightarrow> response \<times> chat_message list" where
  "answerQuestion env history req q actualDocumentContent =
     (case (if q \<noteq> ''all''
            then (case qaAnswer env actualDocumentContent q of
                    None \<Rightarrow> None
                  | Some answer \<Rightarrow>
                      Some (Response 200 (Question_answer_body q answer),
                            saveQuestionAndAnswer env history q answer False))
            else (case qaBulk env (documentContent req) of
                    None \<Rightarrow> None
                  | Some answers \<Rightarrow>
                      Some (Response 200 (Bulk_body answers), saveBulk env history answers))) of
        Some result \<Rightarrow> result
      | None \<Rightarrow>
          (case documentContent req of
             None \<Rightarrow>
               (Response 500 (Error_body ''Failed to process the question with custom model''),
                history)
           | Some content \<Rightarrow>
               (let answer = generateExtractiveAnswer content q in
                (Response 200 (Fallback_body q answer),
                 saveQuestionAndAnswer env history q answer True))))"

definition POST :: "qa_env \<Rightarrow> chat_message list \<Rightarrow> qa_request \<Rightarrow> response \<times> chat_message list" where
  "POST env history req =
     (if falsy (question req) then (Response 400 (Error_body ''Question is required''), history)
      else
        (let q = the (question req);
             docFingerprintToSearch = or_else (fingerprint req) (documentFingerprint req) in
         if falsy (documentContent req) \<and> \<not> falsy docFingerprintToSearch then
           (case findDocument env (the docFingerprintToSearch) of
              Db_error \<Rightarrow>
                (Response 200 (Answer_body
                   ''Sorry, there was an error retrieving the document. Please try again.''),
                 history)
            | Db_missing \<Rightarrow>
                (Response 200 (Answer_body
                   (''I don't have enough information to answer that question. '' @
                    ''The document content could not be found. Please upload the document again.'')),
                 history)
            | Db_document content \<Rightarrow>
                (if content = [] then
                   (Response 200 (Answer_body
                      (''I don't have enough information to answer that question. '' @
                       ''The document content could not be found. Please upload the document again.'')),
                    history)
                 else answerQuestion env history req q content))
         else if falsy (documentContent req) then
           (Response 200 (Answer_body
              ''I don't have enough information to answer that question. Please upload a document first.''),
            history)
         else answerQuestion env history req q (the (documentContent req))))"

text \<open>
  An environment for the examples: the document store holds one document under every
  fingerprint, the QA server is unreachable, and every message is saved.
\<close>

definition server_down_env :: qa_env where
  "server_down_env =
     \<lparr>findDocument = (\<lambda>fp. Db_document ''The penalty is a fine. It is due in May.''),
      qaAnswer = (\<lambda>context q. None),
      qaBulk = (\<lambda>text. None),
      connectToDatabase = True,
      saveMessage = (\<lambda>history m. Some (history @ [m]))\<rparr>"

text \<open>The same environment with a QA server that answers every single question.\<close>

definition server_up_env :: qa_env where
  "server_up_env = server_down_env\<lparr>qaAnswer := (\<lambda>context q. Some ''A fine.'')\<rparr>"

definition fingerprint_request :: qa_request where
  "fingerprint_request =
     \<lparr>question = Some ''What is the penalty?'', documentContent = None,
      documentName = Some ''case.txt'', fingerprint = Some ''abc123'',
      documentFingerprint = None\<rparr>"

definition inline_request :: qa_request where
  "inline_request =
     \<lparr>question = Some ''Explain the penalty'',
      documentContent = Some ''The penalty is a fine. It is due in May.'',
      documentName = Some ''case.txt'', fingerprint = None, documentFingerprint = None\<rparr>"

section \<open>The document store of the Firestore provider\<close>

record firebase_document =
  userId :: string
  docFingerprint :: string
  fileName :: string
  fileSize :: nat
  uploadedAt :: nat
  lastAccessedAt :: nat

text \<open>
  The documents collection: the stored documents with their ids. The argument of
  \<^verbatim>\<open>saveDocument\<close> has neither id nor timestamps.
\<close>

type_synonym documents = "(string \<times> firebase_document) list"

record document_data =
  dataUserId :: string
  dataFingerprint :: string
  dataFileName :: string
  dataFileSize :: nat

text \<open>
  What one call meets outside the function: whether the provider is configured, whether
  the query and the write go through or throw, the time the server stamps on the write,
  and the id the server gives a new document.
\<close>

record firestore_call =
  isAvailable :: bool
  getDocs_ok :: bool
  write_ok :: bool
  serverTimestamp :: nat
  generatedId :: string

definition matches :: "string \<Rightarrow> string \<Rightarrow> string \<times> firebase_document \<Rightarrow> bool" where
  "matches u f entry = (userId (snd entry) = u \<and> docFingerprint (snd entry) = f)"

text \<open>\<^verbatim>\<open>updateDoc(ref, { lastAccessedAt: serverTimestamp() })\<close> on the document of one id.\<close>

definition updateDoc :: "string \<Rightarrow> nat \<Rightarrow> documents \<Rightarrow> documents" where
  "updateDoc docId t db =
     map (\<lambda>entry. if fst entry = docId then (fst entry, (snd entry)\<lparr>lastAccessedAt := t\<rparr>)
                   else entry) db"

definition saveDocument ::
  "firestore_call \<Rightarrow> documents \<Rightarrow> document_data
     \<Rightarrow> (string \<times> firebase_document) option \<times> documents" where
  "saveDocument call db docData =
     (if \<not> isAvailable call then (None, db)
      else if \<not> getDocs_ok call then (None, db)
      else (case filter (matches (dataUserId docData) (dataFingerprint docData)) db of
              docDoc # _ \<Rightarrow>
                (if \<not> write_ok call then (None, db)
                 else (Some docDoc, updateDoc (fst docDoc) (serverTimestamp call) db))
            | [] \<Rightarrow>
                (let newDoc = \<lparr>userId = dataUserId docData,
                               docFingerprint = dataFingerprint docData,
                               fileName = dataFileName docData,
                               fileSize = dataFileSize docData,
                               uploadedAt = serverTimestamp call,
                               lastAccessedAt = serverTimestamp call\<rparr> in
                 if \<not> write_ok call then (None, db)
                 else (Some (generatedId call, newDoc), db @ [(generatedId call, newDoc)]))))"

text \<open>The invariant of the collection: no two documents of one owner with one fingerprint.\<close>

definition one_per_key :: "documents \<Rightarrow> bool" where
  "one_per_key db = distinct (map (\<lambda>entry. (userId (snd entry), docFingerprint (snd entry))) db)"

section \<open>The delete operations of the data service\<close>

text \<open>
  The configuration: the provider named by \<^verbatim>\<open>DATABASE_PROVIDER\<close> and the two flags of
  \<^verbatim>\<open>DATA_PROVIDERS\<close> that the router reads.
\<close>

record config =
  DATABASE_PROVIDER :: string
  providers_firebase :: bool
  providers_mongodb :: bool

text \<open>
  A provider, as far as deleting goes: what its delete of a chat history and of a user
  report. The Firestore provider reports false when it is not configured or when
  \<^verbatim>\<open>deleteDoc\<close> throws; the MongoDB provider of these sources is a placeholder whose
  deletes always report false.
\<close>

record provider_ops =
  deleteChatHistory :: "string \<Rightarrow> bool"
  deleteUser :: "string \<Rightarrow> bool"

definition firebaseOps :: "bool \<Rightarrow> (string \<Rightarrow> string \<Rightarrow> bool) \<Rightarrow> provider_ops" where
  "firebaseOps available deleteDoc_ok =
     \<lparr>deleteChatHistory = (\<lambda>chatId. if \<not> available then False else deleteDoc_ok ''chatHistory'' chatId),
      deleteUser = (\<lambda>uid. if \<not> available then False else deleteDoc_ok ''users'' uid)\<rparr>"

definition mongoOps :: provider_ops where
  "mongoOps = \<lparr>deleteChatHistory = (\<lambda>chatId. False), deleteUser = (\<lambda>uid. False)\<rparr>"

definition use_firebase :: "config \<Rightarrow> bool" where
  "use_firebase cfg =
     (providers_firebase cfg \<and>
      (DATABASE_PROVIDER cfg = ''firebase'' \<or> DATABASE_PROVIDER cfg = ''both''))"

definition use_mongodb :: "config \<Rightarrow> bool" where
  "use_mongodb cfg =
     (providers_mongodb cfg \<and>
      (DATABASE_PROVIDER cfg = ''mongodb'' \<or> DATABASE_PROVIDER cfg = ''both''))"

text \<open>\<^verbatim>\<open>dataService.chats.delete\<close> and \<^verbatim>\<open>dataService.users.delete\<close>, over the two
  providers.\<close>

definition chats_delete :: "config \<Rightarrow> provider_ops \<Rightarrow> provider_ops \<Rightarrow> string \<Rightarrow> bool" where
  "chats_delete cfg firebase mongo chatId =
     (let success = False;
          success = (if use_firebase cfg then deleteChatHistory firebase chatId \<or> success
                     else success);
          success = (if use_mongodb cfg then deleteChatHistory mongo chatId \<or> success
                     else success)
      in success)"

definition users_delete :: "config \<Rightarrow> provider_ops \<Rightarrow> provider_ops \<Rightarrow> string \<Rightarrow> bool" where
  "users_delete cfg firebase mongo uid =
     (let success = False;
          success = (if use_firebase cfg then deleteUser firebase uid \<or> success else success);
          success = (if use_mongodb cfg then deleteUser mongo uid \<or> success else success)
      in success)"

text \<open>Two calls that go through, the second stamped later, and a document to save.\<close>

definition first_call :: firestore_call where
  "first_call = \<lparr>isAvailable = True, getDocs_ok = True, write_ok = True,
                  serverTimestamp = 5, generatedId = ''doc1''\<rparr>"

definition second_call :: firestore_call where
  "second_call = \<lparr>isAvailable = True, getDocs_ok = True, write_ok = True,
                   serverTimestamp = 9, generatedId = ''doc2''\<rparr>"

definition contract_upload :: document_data where
  "contract_upload = \<lparr>dataUserId = ''ann@example.org'', dataFingerprint = ''f00d'',
                       dataFileName = ''contract.txt'', dataFileSize = 120\<rparr>"

text \<open>A configuration in dual mode with both providers enabled, a Firestore provider
  whose \<^verbatim>\<open>deleteDoc\<close> throws, and a second provider whose deletes go through.\<close>

definition dual_config :: config where
  "dual_config = \<lparr>DATABASE_PROVIDER = ''both'', providers_firebase = True,
                   providers_mongodb = True\<rparr>"

definition failing_firebase :: provider_ops where
  "failing_firebase = firebaseOps True (\<lambda>collection docId. False)"

definition working_store :: provider_ops where
  "working_store = \<lparr>deleteChatHistory = (\<lambda>chatId. True), deleteUser = (\<lambda>uid. True)\<rparr>"

section \<open>Splitting and joining on the sentence delimiter\<close>

lemma split_dot_space_nonempty: "split_dot_space s \<noteq> []"
  by (induction s rule: split_dot_space.induct) (auto split: list.splits)

lemma split_dot_space_single: "\<not> has_dot_space w \<Longrightarrow> split_dot_space w = [w]"
  by (induction w rule: split_dot_space.induct) auto

lemma split_dot_space_append:
  "\<not> has_dot_space w \<Longrightarrow> split_dot_space (w @ ''. '' @ r) = w # split_dot_space r"
  by (induction w rule: split_dot_space.induct) auto


lemma split_join_dot_space:
  "ss \<noteq> [] \<Longrightarrow> \<forall>s \<in> set ss. \<not> has_dot_space s \<Longrightarrow> split_dot_space (join ''. '' ss) = ss"
proof (induction ss rule: induct_list012)
  case (3 x y zs)
  then have "split_dot_space (join ''. '' (y # zs)) = y # zs" by simp
  moreover have "\<not> has_dot_space x" using 3 by simp
  ultimately show ?case using split_dot_space_append[of x "join ''. '' (y # zs)"] by simp
qed (simp_all add: split_dot_space_single)

lemma join_split_dot_space: "join ''. '' (split_dot_space s) = s"
proof (induction s rule: split_dot_space.induct)
  case (3 c d cs)
  show ?case
  proof (cases "c = CHR ''.'' \<and> d = CHR '' ''")
    case True
    with 3 show ?thesis
      using split_dot_space_nonempty[of cs] by (cases "split_dot_space cs") auto
  next
    case False
    obtain v vs where vs: "split_dot_space (d # cs) = v # vs"
      using split_dot_space_nonempty by (cases "split_dot_space (d # cs)") auto
    with 3(2)[OF False] have "join ''. '' (v # vs) = d # cs" by simp
    then have "join ''. '' ((c # v) # vs) = c # d # cs" by (cases vs) auto
    with False vs show ?thesis by auto
  qed
qed simp_all

section \<open>The summarization fallback\<close>

lemma those_map:
  "those (map f xs) = (if \<forall>x \<in> set xs. f x \<noteq> None then Some (map (\<lambda>x. the (f x)) xs) else None)"
  by (induction xs) (auto split: option.splits)

text \<open>
  Claim C6. A chunk is the join, on the delimiter, of its sentences. Whenever the chunk
  has at most two sentences the fallback returns it unchanged; otherwise it returns the
  first sentence, the delimiter, the sentence at index \<open>count div 2\<close> and a full stop.
  On four sentences that is sentence 0, the delimiter, sentence 2 and a full stop.
\<close>

theorem fallbackSummary_correct:
  assumes "ss \<noteq> []" and "\<forall>s \<in> set ss. \<not> has_dot_space s"
  shows "split_dot_space (join ''. '' ss) = ss \<and>
         fallbackSummary (join ''. '' ss) =
           (if length ss \<le> 2 then join ''. '' ss
            else ss ! 0 @ ''. '' @ ss ! (length ss div 2) @ ''.'')"
  using split_join_dot_space[OF assms] by (simp add: fallbackSummary_def Let_def)

theorem fallbackSummary_correct_witness:
  "fallbackSummary (join ''. '' [''A'', ''B'', ''C'', ''D.'']) = ''A. C.'' \<and>
   fallbackSummary (join ''. '' [''Only one.'']) = ''Only one.''"
  using fallbackSummary_correct[of "[''A'', ''B'', ''C'', ''D.'']"]
        fallbackSummary_correct[of "[''Only one.'']"]
  by simp

text \<open>
  Claim C1, as the code has it. The fallback is taken for the whole request, not chunk
  by chunk: when the server answers every chunk, the summaries are the server's, in
  chunk order; when the server fails on at least one chunk, every summary is the
  extractive one, also for the chunks the server did answer.
\<close>

theorem summarizeChunks_all_or_nothing:
  "((\<forall>c \<in> set chunks. remote c \<noteq> None) \<longrightarrow>
      summarizeChunks remote chunks = map (\<lambda>c. the (remote c)) chunks) \<and>
   ((\<exists>c \<in> set chunks. remote c = None) \<longrightarrow>
      summarizeChunks remote chunks = map fallbackSummary chunks)"
  by (auto simp: summarizeChunks_def those_map)

theorem summarizeChunks_all_or_nothing_witness:
  "summarizeChunks (map_of [(''A. B. C. D.'', ''Remote summary.'')]) [''A. B. C. D.'', ''E.'']
     = [fallbackSummary ''A. B. C. D.'', fallbackSummary ''E.''] \<and>
   summarizeChunks (map_of [(''A. B. C. D.'', ''Remote summary.'')]) [''A. B. C. D.'']
     = [''Remote summary.'']"
  using summarizeChunks_all_or_nothing[of "[''A. B. C. D.'', ''E.'']" "map_of [(''A. B. C. D.'', ''Remote summary.'')]"]
        summarizeChunks_all_or_nothing[of "[''A. B. C. D.'']" "map_of [(''A. B. C. D.'', ''Remote summary.'')]"]
  by simp

text \<open>
  The server answers the first chunk and fails on the second: the summary of the first
  chunk is the extractive one, not the server's.
\<close>

theorem summarizeChunks_counterexample:
  "map_of [(''A. B. C. D.'', ''Remote summary.'')] ''A. B. C. D.'' = Some ''Remote summary.'' \<and>
   map_of [(''A. B. C. D.'', ''Remote summary.'')] ''E.'' = None \<and>
   summarizeChunks (map_of [(''A. B. C. D.'', ''Remote summary.'')]) [''A. B. C. D.'', ''E.''] ! 0
     = ''A. C.'' \<and>
   summarizeChunks (map_of [(''A. B. C. D.'', ''Remote summary.'')]) [''A. B. C. D.'', ''E.''] ! 0
     \<noteq> ''Remote summary.''"
  by (simp add: summarizeChunks_def fallbackSummary_def)

section \<open>The chunker\<close>

lemma chunk_step_simp:
  "chunk_step N (chunks, cur, len) s =
     (if len + sentenceLength s > N
      then (chunks @ [join ''. '' cur @ ''.''], [s], sentenceLength s)
      else (chunks, cur @ [s], len + sentenceLength s))"
  by (simp add: chunk_step_def)







subsection \<open>The chunker against the packing of the specification\<close>

lemma pack_concat: "concat (pack N segment ss) = segment @ ss"
  by (induction ss arbitrary: segment) auto

lemma pack_nonempty: "segment \<noteq> [] \<Longrightarrow> [] \<notin> set (pack N segment ss)"
  by (induction ss arbitrary: segment) auto

lemma chunk_loop_pack:
  assumes "cur \<noteq> []" and "len = wordCount cur"
  shows "(case foldl (chunk_step N) (chunks, cur, len) ss of
            (chunks', cur', len') \<Rightarrow>
              (if length cur' > 0 then chunks' @ [join ''. '' cur' @ ''.''] else chunks')) =
         chunks @ map (\<lambda>segment. join ''. '' segment @ ''.'') (pack N cur ss)"
  using assms
proof (induction ss arbitrary: chunks cur len)
  case Nil
  then show ?case by simp
next
  case (Cons s ss)
  show ?case
  proof (cases "len + sentenceLength s > N")
    case True
    have "wordCount [s] = sentenceLength s" by (simp add: wordCount_def)
    with Cons.IH[of "[s]" "sentenceLength s" "chunks @ [join ''. '' cur @ ''.'']"] True Cons.prems
    show ?thesis by (simp add: chunk_step_simp)
  next
    case False
    have "wordCount (cur @ [s]) = len + sentenceLength s"
      using Cons.prems by (simp add: wordCount_def)
    with Cons.IH[of "cur @ [s]" "len + sentenceLength s" chunks] False Cons.prems
    show ?thesis by (simp add: chunk_step_simp)
  qed
qed

text \<open>
  The code agrees with the packing of the specification but for one case: when the first
  sentence alone has more words than the limit, the loop closes the segment it has not
  yet put a sentence in, and the output starts with a segment that is a lone full stop.
\<close>

lemma chunkText_refines_spec:
  "chunkText text N =
     (if N < sentenceLength (hd (split_dot_space text)) then [''.''] else []) @ chunk_spec text N"
proof -
  obtain s rest where sp: "split_dot_space text = s # rest"
    using split_dot_space_nonempty by (cases "split_dot_space text") auto
  have w: "sentenceLength s = wordCount [s]" by (simp add: wordCount_def)
  show ?thesis
  proof (cases "N < sentenceLength s")
    case True
    with chunk_loop_pack[of "[s]" "sentenceLength s" N "[''.'']" rest] w sp
    show ?thesis by (simp add: chunkText_def chunk_spec_def chunk_step_simp)
  next
    case False
    with chunk_loop_pack[of "[s]" "sentenceLength s" N "[]" rest] w sp
    show ?thesis by (simp add: chunkText_def chunk_spec_def chunk_step_simp)
  qed
qed

text \<open>
  Claim C4, at a text whose first sentence has three words and a limit of two. The claim
  asks for the long sentence in a segment of its own, followed by the segment of the
  second sentence. The code emits a first segment that holds no sentence before them:
  the push inside the loop lacks the test for an empty segment that the push after the
  loop has.
\<close>

theorem chunkText_empty_first_segment:
  "chunkText ''One two three. Four'' 2 = [''.'', ''One two three.'', ''Four.''] \<and>
   chunk_spec ''One two three. Four'' 2 = [''One two three.'', ''Four.'']"
  by code_simp

section \<open>The extractive answer\<close>

lemma foldl_count:
  "foldl (\<lambda>score word. if P word then score + 1 else score) n ws = n + length (filter P ws)"
  by (induction ws arbitrary: n) auto

lemma sentenceScore_count:
  "sentenceScore qwords sentence = length (filter (includes_str (toLowerCase sentence)) qwords)"
  by (simp add: sentenceScore_def foldl_count)

lemma length_rankedSentences:
  "length (rankedSentences d q) = length (docSentences d)"
  by (simp add: rankedSentences_def scoredSentences_def)

lemma topSentences_empty: "length (topSentences d q) = 0 \<longleftrightarrow> docSentences d = []"
  by (cases "docSentences d") (simp_all add: topSentences_def length_rankedSentences)

lemma generateExtractiveAnswer_no_sentence:
  "docSentences d = [] \<Longrightarrow> generateExtractiveAnswer d q = no_answer_framing"
  using topSentences_empty[of d q]
  by (simp add: generateExtractiveAnswer_def keyExcerpts_def nth_opt_def)

lemma generateExtractiveAnswer_some_sentence:
  "docSentences d \<noteq> [] \<Longrightarrow>
   generateExtractiveAnswer d q = answer_framing @ join blank_line (topSentences d q)"
  using topSentences_empty[of d q] by (simp add: generateExtractiveAnswer_def)

lemma ranked_descending:
  assumes "i < j" and "j < length (rankedSentences d q)"
  shows "snd (rankedSentences d q ! j) \<le> snd (rankedSentences d q ! i)"
proof -
  let ?r = "rankedSentences d q"
  have "sorted (map (\<lambda>item. - int (snd item)) ?r)"
    by (simp add: rankedSentences_def)
  then have "map (\<lambda>item. - int (snd item)) ?r ! i \<le> map (\<lambda>item. - int (snd item)) ?r ! j"
    using assms by (intro sorted_nth_mono) auto
  then show ?thesis using assms by simp
qed

text \<open>
  The ranking, on the question words as the code cuts them. The question words are the
  whitespace-separated pieces of the lower-cased question that are longer than 3 and are
  no stop word; the score of a sentence is the number of question words that its
  lower-cased text includes; the ranking is a rearrangement of the scored sentences in
  descending score, sentences of one score in their order in the document, so that every
  sentence with a positive score comes before every sentence of score 0; and the answer
  of a document with a sentence is the framing line and the first three sentences of the
  ranking, trimmed.
\<close>

lemma extractive_answer_ranking:
  "questionWords q =
     filter (\<lambda>w. 3 < length w \<and> w \<notin> set stopWords) (split_re is_space (toLowerCase q)) \<and>
   scoredSentences d q =
     map (\<lambda>s. (s, length (filter (includes_str (toLowerCase s)) (questionWords q))))
       (docSentences d) \<and>
   mset (rankedSentences d q) = mset (scoredSentences d q) \<and>
   (\<forall>i j. i < j \<and> j < length (rankedSentences d q) \<longrightarrow>
      snd (rankedSentences d q ! j) \<le> snd (rankedSentences d q ! i)) \<and>
   (\<forall>k. filter (\<lambda>item. snd item = k) (rankedSentences d q) =
        filter (\<lambda>item. snd item = k) (scoredSentences d q)) \<and>
   (\<forall>i j. i < length (rankedSentences d q) \<and> j < length (rankedSentences d q) \<and>
      0 < snd (rankedSentences d q ! i) \<and> snd (rankedSentences d q ! j) = 0 \<longrightarrow> i < j) \<and>
   (docSentences d \<noteq> [] \<longrightarrow>
      generateExtractiveAnswer d q =
        answer_framing @
        join blank_line (map (\<lambda>item. trim (fst item)) (take 3 (rankedSentences d q))))"
proof (intro conjI)
  show "questionWords q =
     filter (\<lambda>w. 3 < length w \<and> w \<notin> set stopWords) (split_re is_space (toLowerCase q))"
    by (simp add: questionWords_def)
  show "scoredSentences d q =
     map (\<lambda>s. (s, length (filter (includes_str (toLowerCase s)) (questionWords q))))
       (docSentences d)"
    by (simp add: scoredSentences_def sentenceScore_count)
  show "mset (rankedSentences d q) = mset (scoredSentences d q)"
    by (simp add: rankedSentences_def)
  show "\<forall>i j. i < j \<and> j < length (rankedSentences d q) \<longrightarrow>
      snd (rankedSentences d q ! j) \<le> snd (rankedSentences d q ! i)"
    using ranked_descending by blast
  show "\<forall>k. filter (\<lambda>item. snd item = k) (rankedSentences d q) =
        filter (\<lambda>item. snd item = k) (scoredSentences d q)"
  proof
    fix k
    have "filter (\<lambda>item. - int (snd item) = - int k) (rankedSentences d q) =
          filter (\<lambda>item. - int (snd item) = - int k) (scoredSentences d q)"
      unfolding rankedSentences_def by (rule sort_key_stable)
    then show "filter (\<lambda>item. snd item = k) (rankedSentences d q) =
        filter (\<lambda>item. snd item = k) (scoredSentences d q)" by simp
  qed
  show "\<forall>i j. i < length (rankedSentences d q) \<and> j < length (rankedSentences d q) \<and>
      0 < snd (rankedSentences d q ! i) \<and> snd (rankedSentences d q ! j) = 0 \<longrightarrow> i < j"
  proof (intro allI impI)
    fix i j
    assume a: "i < length (rankedSentences d q) \<and> j < length (rankedSentences d q) \<and>
      0 < snd (rankedSentences d q ! i) \<and> snd (rankedSentences d q ! j) = 0"
    show "i < j"
    proof (rule ccontr)
      assume "\<not> i < j"
      then have "j < i \<or> j = i" by auto
      then show False
      proof
        assume "j < i"
        with a ranked_descending[of j i d q] show False by simp
      next
        assume "j = i"
        with a show False by auto
      qed
    qed
  qed
  show "docSentences d \<noteq> [] \<longrightarrow>
      generateExtractiveAnswer d q =
        answer_framing @
        join blank_line (map (\<lambda>item. trim (fst item)) (take 3 (rankedSentences d q)))"
    using generateExtractiveAnswer_some_sentence[of d q] by (simp add: topSentences_def)
qed

text \<open>An example in which the question and the sentence differ in case.\<close>

lemma extractive_answer_ranking_example:
  "snd (rankedSentences ''Alpha beta. Gamma delta! The Penalty is a fine? Eta theta. No penalty applies.''
          ''Explain the PENALTY please'' ! 1) = 1 \<and>
   snd (rankedSentences ''Alpha beta. Gamma delta! The Penalty is a fine? Eta theta. No penalty applies.''
          ''Explain the PENALTY please'' ! 2) = 0 \<and>
   (1::nat) < 2 \<and>
   generateExtractiveAnswer
     ''Alpha beta. Gamma delta! The Penalty is a fine? Eta theta. No penalty applies.''
     ''Explain the PENALTY please'' =
   answer_framing @ ''The Penalty is a fine'' @ blank_line @ ''No penalty applies'' @ blank_line @
     ''Alpha beta''"
proof -
  let ?d = "''Alpha beta. Gamma delta! The Penalty is a fine? Eta theta. No penalty applies.''"
  let ?q = "''Explain the PENALTY please''"
  have r: "rankedSentences ?d ?q =
     [('' The Penalty is a fine'', 1), ('' No penalty applies'', 1), (''Alpha beta'', 0),
      ('' Gamma delta'', 0), ('' Eta theta'', 0)]"
    by code_simp
  have ne: "docSentences ?d \<noteq> []" by code_simp
  have t: "map (\<lambda>item. trim (fst item))
             (take 3 [('' The Penalty is a fine'', 1::nat), ('' No penalty applies'', 1),
                      (''Alpha beta'', 0), ('' Gamma delta'', 0), ('' Eta theta'', 0)]) =
           [''The Penalty is a fine'', ''No penalty applies'', ''Alpha beta'']"
    by code_simp
  from extractive_answer_ranking[of ?q ?d] ne
  have "generateExtractiveAnswer ?d ?q =
        answer_framing @
        join blank_line (map (\<lambda>item. trim (fst item)) (take 3 (rankedSentences ?d ?q)))"
    by blast
  then show ?thesis unfolding r t by simp
qed

subsection \<open>Question words that carry punctuation\<close>

text \<open>
  The sentences are cut at the characters \<^verbatim>\<open>.\<close>, \<^verbatim>\<open>!\<close> and \<^verbatim>\<open>?\<close>, so no
  sentence holds one of them, and lower-casing brings none in. The question is cut at
  whitespace only. A question word that carries one of these characters is therefore
  included in no sentence and never adds to a score.
\<close>

lemma split_re_pieces: "w \<in> set (split_re P s) \<Longrightarrow> c \<in> set w \<Longrightarrow> \<not> P c"
proof (induction P s arbitrary: w rule: split_re.induct)
  case (1 P)
  then show ?case by simp
next
  case (2 P a cs)
  show ?case
  proof (cases "P a")
    case True
    with 2 show ?thesis by auto
  next
    case False
    show ?thesis
    proof (cases "split_re P cs")
      case Nil
      with 2 False show ?thesis by auto
    next
      case (Cons v vs)
      with 2(3) False have "w = a # v \<or> w \<in> set vs" by auto
      then show ?thesis
      proof
        assume "w = a # v"
        with 2(4) have "c = a \<or> c \<in> set v" by auto
        then show ?thesis using False 2(2)[OF False, of v] Cons by auto
      next
        assume "w \<in> set vs"
        then show ?thesis using 2(2)[OF False, of w] 2(4) Cons by auto
      qed
    qed
  qed
qed

lemma docSentences_no_end:
  "s \<in> set (docSentences d) \<Longrightarrow> c \<in> set s \<Longrightarrow> \<not> is_sentence_end c"
  using split_re_pieces[of s is_sentence_end d c] by (simp add: docSentences_def)

lemma is_sentence_end_code:
  "is_sentence_end c \<longleftrightarrow> (of_char c :: nat) \<in> {33, 46, 63}"
proof -
  have "c = CHR ''.'' \<longleftrightarrow> (of_char c :: nat) = of_char CHR ''.''"
       "c = CHR ''!'' \<longleftrightarrow> (of_char c :: nat) = of_char CHR ''!''"
       "c = CHR ''?'' \<longleftrightarrow> (of_char c :: nat) = of_char CHR ''?''"
    by (simp_all only: of_char_eq_iff)
  then show ?thesis by (auto simp: is_sentence_end_def)
qed

lemma to_lower_char_end: "is_sentence_end (to_lower_char c) \<longleftrightarrow> is_sentence_end c"
proof -
  define n where "n = (of_char c :: nat)"
  show ?thesis
  proof (cases "(65 \<le> n \<and> n \<le> 90) \<or> (192 \<le> n \<and> n \<le> 222 \<and> n \<noteq> 215)")
    case False
    then have "to_lower_char c = c"
      unfolding to_lower_char_def Let_def n_def by auto
    then show ?thesis by simp
  next
    case True
    then have "to_lower_char c = char_of (n + 32)"
      unfolding to_lower_char_def Let_def n_def by auto
    then have "(of_char (to_lower_char c) :: nat) = (n + 32) mod 256" by simp
    with True have "(of_char (to_lower_char c) :: nat) = n + 32" by auto
    with True show ?thesis by (auto simp: is_sentence_end_code n_def)
  qed
qed

lemma includes_str_chars: "includes_str s w \<Longrightarrow> set w \<subseteq> set s"
proof (induction s)
  case Nil
  then show ?case by simp
next
  case (Cons a s)
  from Cons.prems have "take (length w) (a # s) = w \<or> includes_str s w" by simp
  then show ?case
  proof
    assume "take (length w) (a # s) = w"
    then have "set w = set (take (length w) (a # s))" by simp
    then show ?thesis using set_take_subset[of "length w" "a # s"] by blast
  next
    assume "includes_str s w"
    with Cons.IH show ?thesis by auto
  qed
qed

lemma punctuated_word_never_matches:
  assumes "s \<in> set (docSentences d)" and "c \<in> set w" and "is_sentence_end c"
  shows "\<not> includes_str (toLowerCase s) w"
proof
  assume "includes_str (toLowerCase s) w"
  then have "c \<in> set (toLowerCase s)" using includes_str_chars assms(2) by blast
  then obtain c' where c': "c' \<in> set s" "c = to_lower_char c'"
    by (auto simp: toLowerCase_def)
  with assms(3) have "is_sentence_end c'" by (simp add: to_lower_char_end)
  with docSentences_no_end[OF assms(1) c'(1)] show False by simp
qed

text \<open>
  Claim C7, at the question ``What is the penalty?''. The claim asks that a sentence
  containing a keyword of the question ranks ahead of every sentence containing none.
  The only question word the code keeps is \<open>penalty?\<close>, with the question mark, so
  the sentence about the penalty scores 0 like the others: in a document of four
  sentences it comes fourth and is not among the three returned, and in a document of two
  it is returned behind the sentence that does not mention the penalty. With the question
  mark set apart from the word the same document is ranked as the claim says.
\<close>

theorem penalty_question_misses_keyword:
  "questionWords ''What is the penalty?'' = [''penalty?''] \<and>
   scoredSentences ''The term is long. The fee is low. The sum is due. The penalty is a fine.''
     ''What is the penalty?'' =
     [(''The term is long'', 0), ('' The fee is low'', 0), ('' The sum is due'', 0),
      ('' The penalty is a fine'', 0)] \<and>
   generateExtractiveAnswer
     ''The term is long. The fee is low. The sum is due. The penalty is a fine.''
     ''What is the penalty?'' =
     answer_framing @ ''The term is long'' @ blank_line @ ''The fee is low'' @ blank_line @
       ''The sum is due'' \<and>
   generateExtractiveAnswer ''The fee is low. The penalty is a fine.'' ''What is the penalty?'' =
     answer_framing @ ''The fee is low'' @ blank_line @ ''The penalty is a fine'' \<and>
   generateExtractiveAnswer ''The fee is low. The penalty is a fine.'' ''What is the penalty ?'' =
     answer_framing @ ''The penalty is a fine'' @ blank_line @ ''The fee is low''"
  by code_simp

text \<open>
  Claim C3, at a document of five sentences that all score 0. The claim asks for the
  ``no confident answer'' framing and the sentences 0, 2 and 4. The handler tests
  whether the list of top sentences is empty, which it is only for a document without a
  sentence, so it returns the other framing and the sentences 0, 1 and 2.
\<close>

theorem zero_score_answer_is_top3:
  "map snd (scoredSentences ''Alpha beta. Gamma delta. Epsilon zeta. Eta theta. Iota kappa.''
              ''Explain the penalty clause'') = [0, 0, 0, 0, 0] \<and>
   generateExtractiveAnswer ''Alpha beta. Gamma delta. Epsilon zeta. Eta theta. Iota kappa.''
     ''Explain the penalty clause'' =
   answer_framing @ ''Alpha beta'' @ blank_line @ ''Gamma delta'' @ blank_line @ ''Epsilon zeta'' \<and>
   no_answer_framing @ join blank_line
     (keyExcerpts (docSentences ''Alpha beta. Gamma delta. Epsilon zeta. Eta theta. Iota kappa.'')) =
   no_answer_framing @ ''Alpha beta'' @ blank_line @ ''Epsilon zeta'' @ blank_line @ ''Iota kappa''"
  by code_simp

section \<open>The POST handler of the question-answer route\<close>

text \<open>
  A request with a question whose content is there, inline or found in the store by its
  fingerprint, reaches the inner \<^verbatim>\<open>try\<close> with that content.
\<close>

lemma POST_resolved:
  assumes "question req = Some q" and "q \<noteq> []"
    and "(documentContent req = Some d \<and> d \<noteq> []) \<or>
         (falsy (documentContent req) \<and>
          \<not> falsy (or_else (fingerprint req) (documentFingerprint req)) \<and>
          findDocument env (the (or_else (fingerprint req) (documentFingerprint req))) =
            Db_document d \<and> d \<noteq> [])"
  shows "POST env history req = answerQuestion env history req q d"
  using assms by (auto simp: POST_def falsy_def Let_def)

text \<open>
  Claim C2, at a request that gives a fingerprint and no inline content, with the QA
  server unreachable. The content is found in the store, the request to the server fails,
  and the \<^verbatim>\<open>catch\<close> branch reads the inline content, which is absent, instead of
  the content found: the handler answers with status 500, where the claim asks for a
  success carrying a fallback answer.
\<close>

theorem fingerprint_fallback_fails:
  "POST server_down_env [] fingerprint_request =
     (Response 500 (Error_body ''Failed to process the question with custom model''), [])"
  by code_simp

text \<open>
  The same for every request of that shape: content found by fingerprint, none inline,
  and a server that fails.
\<close>

lemma fingerprint_content_fallback_fails:
  assumes "question req = Some q" and "q \<noteq> []"
    and "documentContent req = None"
    and "\<not> falsy (or_else (fingerprint req) (documentFingerprint req))"
    and "findDocument env (the (or_else (fingerprint req) (documentFingerprint req))) =
           Db_document d" and "d \<noteq> []"
    and "if q = ''all'' then qaBulk env None = None else qaAnswer env d q = None"
  shows "POST env history req =
           (Response 500 (Error_body ''Failed to process the question with custom model''),
            history)"
proof -
  have "POST env history req = answerQuestion env history req q d"
    using assms(1-6) by (intro POST_resolved) (auto simp: falsy_def)
  then show ?thesis using assms(3,7) by (auto simp: answerQuestion_def)
qed

text \<open>
  With the content inline the same failure of the server gives a success response that
  carries the extractive answer, whatever the history store does.
\<close>

lemma inline_content_fallback_succeeds:
  assumes "question req = Some q" and "q \<noteq> []"
    and "documentContent req = Some d" and "d \<noteq> []"
    and "if q = ''all'' then qaBulk env (Some d) = None else qaAnswer env d q = None"
  shows "fst (POST env history req) =
           Response 200 (Fallback_body q (generateExtractiveAnswer d q))"
  using assms
  by (auto simp: POST_def falsy_def Let_def answerQuestion_def)

lemma saveQuestionAndAnswer_appends:
  assumes "connectToDatabase env" and "\<forall>h m. saveMessage env h m = Some (h @ [m])"
  shows "saveQuestionAndAnswer env history q answer isFallback =
           history @ [(User, q), (Ai, (if isFallback then ''[Fallback Answer] '' else '''') @ answer)]"
  using assms by (simp add: saveQuestionAndAnswer_def)

lemma saveBulk_appends:
  assumes "connectToDatabase env" and "\<forall>h m. saveMessage env h m = Some (h @ [m])"
  shows "saveBulk env history answers =
           history @ concat (map (\<lambda>qa. [(User, fst qa), (Ai, snd qa)]) answers)"
  using assms
  by (induction answers arbitrary: history) (simp_all add: saveQuestionAndAnswer_appends)

lemma prefix_differs: "''[Fallback Answer] '' @ a \<noteq> a"
proof
  assume "''[Fallback Answer] '' @ a = a"
  then have "length (''[Fallback Answer] '' @ a) = length a" by simp
  then show False by simp
qed

text \<open>
  Claim C10. For a request with a question whose content is there, inline or found by
  fingerprint, and a history store that saves every message: when the request to the QA
  server fails and the fallback answers, the stored assistant message is the returned
  answer behind the prefix ``[Fallback Answer] '', which differs from the answer
  returned; when the server answers, the stored assistant message is the answer
  returned, for a single question and for each pair of a bulk answer.
\<close>

theorem stored_answer_prefix:
  assumes "question req = Some q" and "q \<noteq> []"
    and "(documentContent req = Some d \<and> d \<noteq> []) \<or>
         (falsy (documentContent req) \<and>
          \<not> falsy (or_else (fingerprint req) (documentFingerprint req)) \<and>
          findDocument env (the (or_else (fingerprint req) (documentFingerprint req))) =
            Db_document d \<and> d \<noteq> [])"
    and "connectToDatabase env" and "\<forall>h m. saveMessage env h m = Some (h @ [m])"
  shows "(\<forall>c. documentContent req = Some c \<and>
              (if q = ''all'' then qaBulk env (Some c) = None else qaAnswer env d q = None) \<longrightarrow>
            POST env history req =
              (Response 200 (Fallback_body q (generateExtractiveAnswer c q)),
               history @ [(User, q), (Ai, ''[Fallback Answer] '' @ generateExtractiveAnswer c q)]) \<and>
            ''[Fallback Answer] '' @ generateExtractiveAnswer c q \<noteq> generateExtractiveAnswer c q) \<and>
         (\<forall>a. q \<noteq> ''all'' \<and> qaAnswer env d q = Some a \<longrightarrow>
            POST env history req =
              (Response 200 (Question_answer_body q a), history @ [(User, q), (Ai, a)])) \<and>
         (\<forall>answers. q = ''all'' \<and> qaBulk env (documentContent req) = Some answers \<longrightarrow>
            POST env history req =
              (Response 200 (Bulk_body answers),
               history @ concat (map (\<lambda>qa. [(User, fst qa), (Ai, snd qa)]) answers)))"
proof -
  have P: "POST env history req = answerQuestion env history req q d"
    using assms(1-3) by (rule POST_resolved)
  show ?thesis
    unfolding P
    using prefix_differs
    by (auto simp: answerQuestion_def Let_def
        saveQuestionAndAnswer_appends[OF assms(4,5)] saveBulk_appends[OF assms(4,5)])
qed

theorem stored_answer_prefix_witness:
  "POST server_down_env [] inline_request =
     (Response 200 (Fallback_body ''Explain the penalty''
        (generateExtractiveAnswer ''The penalty is a fine. It is due in May.'' ''Explain the penalty'')),
      [(User, ''Explain the penalty''),
       (Ai, ''[Fallback Answer] '' @
            generateExtractiveAnswer ''The penalty is a fine. It is due in May.'' ''Explain the penalty'')]) \<and>
   POST server_up_env [] fingerprint_request =
     (Response 200 (Question_answer_body ''What is the penalty?'' ''A fine.''),
      [(User, ''What is the penalty?''), (Ai, ''A fine.'')])"
  using stored_answer_prefix[of inline_request "''Explain the penalty''"
          "''The penalty is a fine. It is due in May.''" server_down_env "[]"]
        stored_answer_prefix[of fingerprint_request "''What is the penalty?''"
          "''The penalty is a fine. It is due in May.''" server_up_env "[]"]
  by (simp add: inline_request_def fingerprint_request_def server_down_env_def server_up_env_def
      falsy_def or_else_def)

section \<open>Saving a document twice\<close>

lemma one_per_key_filter:
  "one_per_key db \<Longrightarrow> length (filter (matches u f) db) \<le> 1"
proof (induction db)
  case Nil
  then show ?case by simp
next
  case (Cons e db)
  then have IH: "length (filter (matches u f) db) \<le> 1" by (simp add: one_per_key_def)
  show ?case
  proof (cases "matches u f e")
    case False
    with IH show ?thesis by simp
  next
    case True
    have "filter (matches u f) db = []"
    proof (rule ccontr)
      assume "filter (matches u f) db \<noteq> []"
      then obtain e' where "e' \<in> set db" "matches u f e'"
        by (metis filter_False)
      then have "(userId (snd e'), docFingerprint (snd e')) \<in>
                 (\<lambda>entry. (userId (snd entry), docFingerprint (snd entry))) ` set db"
        by (intro imageI)
      moreover have "(userId (snd e'), docFingerprint (snd e')) =
                     (userId (snd e), docFingerprint (snd e))"
        using True \<open>matches u f e'\<close> by (simp add: matches_def)
      ultimately show False using Cons.prems by (simp add: one_per_key_def)
    qed
    with True show ?thesis by simp
  qed
qed

lemma matches_updateDoc:
  "filter (matches u f) (updateDoc i t db) =
   map (\<lambda>entry. if fst entry = i then (fst entry, (snd entry)\<lparr>lastAccessedAt := t\<rparr>) else entry)
     (filter (matches u f) db)"
  by (induction db) (auto simp: updateDoc_def matches_def)

lemma length_updateDoc: "length (updateDoc i t db) = length db"
  by (simp add: updateDoc_def)

lemma keys_updateDoc:
  "map (\<lambda>entry. (userId (snd entry), docFingerprint (snd entry))) (updateDoc i t db) =
   map (\<lambda>entry. (userId (snd entry), docFingerprint (snd entry))) db"
  by (induction db) (auto simp: updateDoc_def)

lemma no_match_key:
  "filter (matches u f) db = [] \<Longrightarrow>
   (u, f) \<notin> set (map (\<lambda>entry. (userId (snd entry), docFingerprint (snd entry))) db)"
  by (induction db) (auto simp: matches_def split: if_splits)

text \<open>Every call keeps the invariant, whether it goes through or not.\<close>

lemma saveDocument_preserves_one_per_key:
  assumes "one_per_key db"
  shows "one_per_key (snd (saveDocument call db docData))"
proof (cases "filter (matches (dataUserId docData) (dataFingerprint docData)) db")
  case Nil
  from no_match_key[OF Nil] assms show ?thesis
    by (simp add: saveDocument_def Nil one_per_key_def Let_def)
next
  case (Cons e es)
  with assms show ?thesis
    by (simp add: saveDocument_def one_per_key_def keys_updateDoc)
qed

lemma saveDocument_success:
  assumes "one_per_key db"
    and "isAvailable call" and "getDocs_ok call" and "write_ok call"
  shows "\<exists>e. filter (matches (dataUserId docData) (dataFingerprint docData))
               (snd (saveDocument call db docData)) = [e] \<and>
             lastAccessedAt (snd e) = serverTimestamp call \<and>
             (\<forall>e0. filter (matches (dataUserId docData) (dataFingerprint docData)) db = [e0] \<longrightarrow>
                e = (fst e0, (snd e0)\<lparr>lastAccessedAt := serverTimestamp call\<rparr>) \<and>
                length (snd (saveDocument call db docData)) = length db)"
proof (cases "filter (matches (dataUserId docData) (dataFingerprint docData)) db")
  case Nil
  with assms(2-4) show ?thesis
    by (simp add: saveDocument_def Let_def matches_def)
next
  case (Cons e0 es)
  from one_per_key_filter[OF assms(1), of "dataUserId docData" "dataFingerprint docData"] Cons
  have es: "es = []" by simp
  with Cons assms(2-4) show ?thesis
    by (simp add: saveDocument_def matches_updateDoc length_updateDoc)
qed

text \<open>
  Claim C8. In a collection with at most one document for each owner and fingerprint,
  two saves of the same owner and fingerprint that both go through, the second stamped
  by the server no earlier than the first, leave exactly one document for that pair: the
  second save inserts nothing and rewrites only its last-accessed time, which does not
  go back. The invariant holds after each save.
\<close>

theorem saveDocument_idempotent:
  assumes "one_per_key db"
    and "isAvailable c1" and "getDocs_ok c1" and "write_ok c1"
    and "isAvailable c2" and "getDocs_ok c2" and "write_ok c2"
    and "serverTimestamp c1 \<le> serverTimestamp c2"
  shows "\<exists>e1 e2.
           filter (matches (dataUserId docData) (dataFingerprint docData))
             (snd (saveDocument c1 db docData)) = [e1] \<and>
           filter (matches (dataUserId docData) (dataFingerprint docData))
             (snd (saveDocument c2 (snd (saveDocument c1 db docData)) docData)) = [e2] \<and>
           e2 = (fst e1, (snd e1)\<lparr>lastAccessedAt := serverTimestamp c2\<rparr>) \<and>
           lastAccessedAt (snd e1) = serverTimestamp c1 \<and>
           lastAccessedAt (snd e1) \<le> lastAccessedAt (snd e2) \<and>
           length (snd (saveDocument c2 (snd (saveDocument c1 db docData)) docData)) =
             length (snd (saveDocument c1 db docData)) \<and>
           one_per_key (snd (saveDocument c1 db docData)) \<and>
           one_per_key (snd (saveDocument c2 (snd (saveDocument c1 db docData)) docData))"
proof -
  let ?db1 = "snd (saveDocument c1 db docData)"
  let ?db2 = "snd (saveDocument c2 ?db1 docData)"
  let ?m = "matches (dataUserId docData) (dataFingerprint docData)"
  have inv1: "one_per_key ?db1"
    by (rule saveDocument_preserves_one_per_key[OF assms(1)])
  have inv2: "one_per_key ?db2"
    by (rule saveDocument_preserves_one_per_key[OF inv1])
  from saveDocument_success[OF assms(1-4), of docData]
  obtain e1 where e1: "filter ?m ?db1 = [e1]" "lastAccessedAt (snd e1) = serverTimestamp c1"
    by blast
  from saveDocument_success[OF inv1 assms(5-7), of docData]
  obtain e2 where e2: "filter ?m ?db2 = [e2]" "lastAccessedAt (snd e2) = serverTimestamp c2"
    "\<forall>e0. filter ?m ?db1 = [e0] \<longrightarrow>
       e2 = (fst e0, (snd e0)\<lparr>lastAccessedAt := serverTimestamp c2\<rparr>) \<and> length ?db2 = length ?db1"
    by blast
  from e2(3) e1(1) have "e2 = (fst e1, (snd e1)\<lparr>lastAccessedAt := serverTimestamp c2\<rparr>)"
    and "length ?db2 = length ?db1" by auto
  with e1 e2(1,2) inv1 inv2 assms(8) show ?thesis by auto
qed

theorem saveDocument_idempotent_witness:
  "one_per_key [] \<and> serverTimestamp first_call \<le> serverTimestamp second_call \<and>
   (\<exists>e1 e2.
      filter (matches (dataUserId contract_upload) (dataFingerprint contract_upload))
        (snd (saveDocument first_call [] contract_upload)) = [e1] \<and>
      filter (matches (dataUserId contract_upload) (dataFingerprint contract_upload))
        (snd (saveDocument second_call (snd (saveDocument first_call [] contract_upload))
               contract_upload)) = [e2] \<and>
      e2 = (fst e1, (snd e1)\<lparr>lastAccessedAt := serverTimestamp second_call\<rparr>) \<and>
      lastAccessedAt (snd e1) = serverTimestamp first_call \<and>
      lastAccessedAt (snd e1) \<le> lastAccessedAt (snd e2) \<and>
      length (snd (saveDocument second_call (snd (saveDocument first_call [] contract_upload))
                    contract_upload)) =
        length (snd (saveDocument first_call [] contract_upload)) \<and>
      one_per_key (snd (saveDocument first_call [] contract_upload)) \<and>
      one_per_key (snd (saveDocument second_call (snd (saveDocument first_call [] contract_upload))
                         contract_upload)))"
proof -
  have inv: "one_per_key []" by (simp add: one_per_key_def)
  have c1: "isAvailable first_call" "getDocs_ok first_call" "write_ok first_call"
    by (simp_all add: first_call_def)
  have c2: "isAvailable second_call" "getDocs_ok second_call" "write_ok second_call"
    by (simp_all add: second_call_def)
  have t: "serverTimestamp first_call \<le> serverTimestamp second_call"
    by (simp add: first_call_def second_call_def)
  show ?thesis
    using inv t saveDocument_idempotent[OF inv c1 c2 t, of contract_upload] by blast
qed

lemma saveDocument_twice_example:
  "snd (saveDocument second_call (snd (saveDocument first_call [] contract_upload)) contract_upload) =
     [(''doc1'', \<lparr>userId = ''ann@example.org'', docFingerprint = ''f00d'',
                  fileName = ''contract.txt'', fileSize = 120, uploadedAt = 5,
                  lastAccessedAt = 9\<rparr>)]"
  by (simp add: saveDocument_def first_call_def second_call_def contract_upload_def
      matches_def updateDoc_def Let_def)

section \<open>Deleting through the data service\<close>

text \<open>
  Claim C9. The delete of a chat history, and of a user, returns true exactly when a
  provider that the configuration selects reports a successful delete: the results of
  the providers are combined by a disjunction. When the second provider is selected and
  its delete goes through, the result is true although the delete of the first failed.
\<close>

theorem delete_is_or:
  "chats_delete cfg firebase mongo chatId =
     ((use_firebase cfg \<and> deleteChatHistory firebase chatId) \<or>
      (use_mongodb cfg \<and> deleteChatHistory mongo chatId)) \<and>
   users_delete cfg firebase mongo uid =
     ((use_firebase cfg \<and> deleteUser firebase uid) \<or>
      (use_mongodb cfg \<and> deleteUser mongo uid)) \<and>
   (use_mongodb cfg \<and> \<not> deleteChatHistory firebase chatId \<and> deleteChatHistory mongo chatId
      \<longrightarrow> chats_delete cfg firebase mongo chatId)"
  by (auto simp: chats_delete_def users_delete_def Let_def)

theorem delete_is_or_witness:
  "use_mongodb dual_config \<and> \<not> deleteChatHistory failing_firebase ''chat1'' \<and>
   deleteChatHistory working_store ''chat1'' \<and>
   chats_delete dual_config failing_firebase working_store ''chat1''"
  using delete_is_or[of dual_config failing_firebase working_store "''chat1''"]
  by (simp add: dual_config_def failing_firebase_def working_store_def use_mongodb_def
      use_firebase_def firebaseOps_def)

text \<open>
  With the second provider of these sources, whose deletes always report false, the
  result is that of the Firestore provider.
\<close>

lemma delete_with_placeholder:
  "chats_delete cfg (firebaseOps available deleteDoc_ok) mongoOps chatId =
     (use_firebase cfg \<and> available \<and> deleteDoc_ok ''chatHistory'' chatId)"
  by (auto simp: chats_delete_def Let_def firebaseOps_def mongoOps_def)

end
